theory Spec2Isabelle
  imports Complex_Main "HOL-Library.Sublist" "HOL-Library.Multiset"
begin

section \<open>Data model\<close>

text \<open>
  A Python \<^verbatim>\<open>str\<close> is a sequence of Unicode code points; a code point is modelled as a
  natural number, so that \<^verbatim>\<open>str.strip\<close> can be given its full Unicode whitespace set.
  \<open>str\<close> turns an ASCII literal into such a string.
\<close>

type_synonym pystr = "nat list"

definition str :: "string \<Rightarrow> pystr" where
  "str s = map of_char s"

text \<open>Python's \<^verbatim>\<open>needle in haystack\<close> on strings: contiguous substring.\<close>

definition py_in :: "pystr \<Rightarrow> pystr \<Rightarrow> bool" where
  "py_in needle haystack = sublist needle haystack"

text \<open>
  A \<^verbatim>\<open>pathlib.Path\<close>: the directory part and the final component (\<^verbatim>\<open>.name\<close>).
  Two paths are equal when both parts are (POSIX flavour).
\<close>

record path =
  parent :: pystr
  name :: pystr

datatype py_error = ValueError | ZeroDivisionError | UnidentifiedImageError | OSError

section \<open>split_by_semicolon\<close>

definition split_by_semicolon :: "path list \<Rightarrow> path list \<times> path list" where
  "split_by_semicolon image_files =
     (let group1 = filter (\<lambda>f. py_in (str '';'') (name f)) image_files;
          group2 = filter (\<lambda>f. \<not> py_in (str '';'') (name f)) image_files
      in (group1, group2))"

section \<open>sort_by_priority\<close>

text \<open>\<^verbatim>\<open>list.index(x)\<close>: position of the first element equal to \<open>x\<close>, ValueError if none.\<close>

fun list_index :: "'a list \<Rightarrow> 'a \<Rightarrow> py_error + nat" where
  "list_index [] x = Inl ValueError"
| "list_index (y # ys) x =
     (if y = x then Inr 0
      else (case list_index ys x of Inl e \<Rightarrow> Inl e | Inr i \<Rightarrow> Inr (Suc i)))"

text \<open>
  The loop \<^verbatim>\<open>for idx, priority_item in enumerate(priority_list)\<close> of
  \<^verbatim>\<open>get_priority_index\<close>, started at \<open>idx\<close>: the index of the first item that equals
  the filename or is contained in it.
\<close>

fun first_match :: "pystr list \<Rightarrow> pystr \<Rightarrow> nat \<Rightarrow> nat option" where
  "first_match [] filename idx = None"
| "first_match (priority_item # rest) filename idx =
     (if priority_item = filename \<or> py_in priority_item filename then Some idx
      else first_match rest filename (Suc idx))"

definition get_priority_index :: "path list \<Rightarrow> pystr list \<Rightarrow> path \<Rightarrow> py_error + nat" where
  "get_priority_index files priority_list file_path =
     (let filename = name file_path in
      case first_match priority_list filename 0 of
        Some idx \<Rightarrow> Inr idx
      | None \<Rightarrow>
          (case list_index files file_path of
             Inl e \<Rightarrow> Inl e
           | Inr i \<Rightarrow> Inr (length priority_list + i)))"

text \<open>
  \<^verbatim>\<open>sorted(xs, key=f)\<close>: the key of every element is computed once, in list order (the
  first exception aborts the call), then the elements are sorted by key with a stable
  sort. A stable sort has one possible result, so insertion sort stands for it.
\<close>

fun decorate :: "('a \<Rightarrow> py_error + nat) \<Rightarrow> 'a list \<Rightarrow> py_error + (nat \<times> 'a) list" where
  "decorate key [] = Inr []"
| "decorate key (x # xs) =
     (case key x of
        Inl e \<Rightarrow> Inl e
      | Inr k \<Rightarrow> (case decorate key xs of Inl e \<Rightarrow> Inl e | Inr kxs \<Rightarrow> Inr ((k, x) # kxs)))"

definition sorted_py :: "('a \<Rightarrow> py_error + nat) \<Rightarrow> 'a list \<Rightarrow> py_error + 'a list" where
  "sorted_py key xs =
     (case decorate key xs of Inl e \<Rightarrow> Inl e | Inr kxs \<Rightarrow> Inr (map snd (sort_key fst kxs)))"

definition sort_by_priority :: "path list \<Rightarrow> pystr list \<Rightarrow> py_error + path list" where
  "sort_by_priority files priority_list =
     sorted_py (get_priority_index files priority_list) files"

subsection \<open>Sample paths used in the worked examples\<close>

definition a_png :: path where "a_png = \<lparr>parent = str ''uploads'', name = str ''a.png''\<rparr>"
definition b_png :: path where "b_png = \<lparr>parent = str ''uploads'', name = str ''b.png''\<rparr>"
definition c_png :: path where "c_png = \<lparr>parent = str ''uploads'', name = str ''c.png''\<rparr>"
definition x_png :: path where "x_png = \<lparr>parent = str ''uploads'', name = str ''x.png''\<rparr>"
definition y_png :: path where "y_png = \<lparr>parent = str ''uploads'', name = str ''y.png''\<rparr>"
definition a_x_png :: path where "a_x_png = \<lparr>parent = str ''a'', name = str ''x.png''\<rparr>"
definition b_x_png :: path where "b_x_png = \<lparr>parent = str ''b'', name = str ''x.png''\<rparr>"

subsection \<open>Auxiliary notions for the proofs\<close>

text \<open>Position of the first occurrence, as a total function.\<close>

definition first_index :: "'a list \<Rightarrow> 'a \<Rightarrow> nat" where
  "first_index xs x = length (takeWhile (\<lambda>y. y \<noteq> x) xs)"

text \<open>The test of the loop body of \<^verbatim>\<open>get_priority_index\<close>.\<close>

definition token_matches :: "pystr \<Rightarrow> pystr \<Rightarrow> bool" where
  "token_matches priority_item filename \<longleftrightarrow>
     priority_item = filename \<or> py_in priority_item filename"

text \<open>The sort key as a total function; it agrees with \<open>get_priority_index\<close> on the
  members of \<open>files\<close> (lemma \<open>get_priority_index_member\<close>).\<close>

definition prio_key :: "path list \<Rightarrow> pystr list \<Rightarrow> path \<Rightarrow> nat" where
  "prio_key files pl f =
     (case first_match pl (name f) 0 of
        Some idx \<Rightarrow> idx
      | None \<Rightarrow> length pl + first_index files f)"

section \<open>parse_priority_list\<close>

text \<open>
  \<^verbatim>\<open>str.isspace\<close> on one code point: the characters that \<^verbatim>\<open>str.strip()\<close> removes.
\<close>

definition isspace :: "nat \<Rightarrow> bool" where
  "isspace c \<longleftrightarrow>
     (9 \<le> c \<and> c \<le> 13) \<or> (28 \<le> c \<and> c \<le> 32) \<or> c = 133 \<or> c = 160 \<or> c = 5760 \<or>
     (8192 \<le> c \<and> c \<le> 8202) \<or> c = 8232 \<or> c = 8233 \<or> c = 8239 \<or> c = 8287 \<or> c = 12288"

text \<open>\<^verbatim>\<open>s.strip()\<close>: leading and trailing whitespace removed.\<close>

definition strip :: "pystr \<Rightarrow> pystr" where
  "strip s = rev (dropWhile isspace (rev (dropWhile isspace s)))"

text \<open>
  \<^verbatim>\<open>s.split(sep)\<close> for a one-character separator: the pieces between the separators,
  empty pieces included; the empty string gives one empty piece. (The result of the
  recursive call is never empty; the last case is there for completeness only.)
\<close>

fun split :: "nat \<Rightarrow> pystr \<Rightarrow> pystr list" where
  "split sep [] = [[]]"
| "split sep (c # cs) =
     (if c = sep then [] # split sep cs
      else (case split sep cs of
              item # items \<Rightarrow> (c # item) # items
            | [] \<Rightarrow> [[c]]))"

definition comma :: nat where
  "comma = of_char CHR '',''"

definition parse_priority_list :: "pystr \<Rightarrow> pystr list" where
  "parse_priority_list priority_str =
     (if priority_str = [] then []
      else map strip (filter (\<lambda>item. strip item \<noteq> []) (split comma priority_str)))"

text \<open>\<^verbatim>\<open>sep.join(items)\<close>, used to say what \<open>split\<close> returns.\<close>

fun join :: "pystr \<Rightarrow> pystr list \<Rightarrow> pystr" where
  "join sep [] = []"
| "join sep [item] = item"
| "join sep (item # rest) = item @ sep @ join sep rest"

section \<open>create_pdf_with_images\<close>

text \<open>
  Python floats are taken as real numbers: \<^verbatim>\<open>min\<close>, the comparisons and \<^verbatim>\<open>int()\<close> are
  exact on floats; the rounding of \<^verbatim>\<open>/\<close> and \<^verbatim>\<open>*\<close> is not modelled. A page size is
  the pair (width, height) in points.
\<close>

type_synonym page_size = "real \<times> real"

definition letter :: page_size where
  "letter = (612, 792)"

text \<open>\<^verbatim>\<open>int(x)\<close> on a float: truncation towards zero.\<close>

definition py_int :: "real \<Rightarrow> int" where
  "py_int x = (if 0 \<le> x then \<lfloor>x\<rfloor> else \<lceil>x\<rceil>)"

text \<open>What the code reads of a PIL image: its mode and its pixel size.\<close>

record image =
  mode :: pystr
  width :: int
  height :: int

text \<open>
  The layout computation of the loop body (available space, scale ratio, scaled size,
  resampling target, resize decision, position). Dividing by a zero width or height
  raises ZeroDivisionError.
\<close>

record layout =
  scale_ratio :: real
  scaled_width :: real
  scaled_height :: real
  target_pixel_width :: int
  target_pixel_height :: int
  resize :: bool
  img_x :: real
  img_y :: real

definition compute_layout :: "page_size \<Rightarrow> int \<Rightarrow> int \<Rightarrow> py_error + layout" where
  "compute_layout page_size img_width img_height =
     (let (page_width, page_height) = page_size;
          available_width = page_width - 100;
          available_height = page_height - 150
      in if img_width = 0 then Inl ZeroDivisionError
         else if img_height = 0 then Inl ZeroDivisionError
         else
           let width_ratio = available_width / real_of_int img_width;
               height_ratio = available_height / real_of_int img_height;
               scale_ratio = min width_ratio (min height_ratio 1);
               scaled_width = real_of_int img_width * scale_ratio;
               scaled_height = real_of_int img_height * scale_ratio;
               target_pixel_width = py_int (scaled_width * 2);
               target_pixel_height = py_int (scaled_height * 2)
           in Inr \<lparr>scale_ratio = scale_ratio,
                   scaled_width = scaled_width,
                   scaled_height = scaled_height,
                   target_pixel_width = target_pixel_width,
                   target_pixel_height = target_pixel_height,
                   resize = (img_width > target_pixel_width \<or> img_height > target_pixel_height),
                   img_x = (page_width - scaled_width) / 2,
                   img_y = page_height - 100 - scaled_height\<rparr>)"

text \<open>
  The world outside the function: what PIL and the file system answer. \<open>image_open\<close> is
  \<^verbatim>\<open>Image.open\<close>; \<open>convert_error\<close> is the exception, if any, raised while the image is
  brought to mode RGB (\<^verbatim>\<open>Image.new\<close>, \<^verbatim>\<open>convert\<close>, \<^verbatim>\<open>split\<close>, \<^verbatim>\<open>paste\<close>);
  \<open>encode_error\<close> the exception, if any, raised by \<^verbatim>\<open>resize\<close>, \<^verbatim>\<open>save\<close>,
  \<^verbatim>\<open>ImageReader\<close> or \<^verbatim>\<open>drawImage\<close>; \<open>save_error\<close> the exception, if any, raised when
  the canvas is created or saved to the output path.
\<close>

record env =
  image_open :: "path \<Rightarrow> py_error + image"
  convert_error :: "path \<Rightarrow> py_error option"
  encode_error :: "path \<Rightarrow> py_error option"
  save_error :: "py_error option"

text \<open>
  The reportlab canvas: the finished pages and the drawing operations of the page
  under construction. \<^verbatim>\<open>showPage\<close> closes the current page and starts an empty one.
  \<^verbatim>\<open>save\<close> first closes the current page if anything has been drawn on it (the
  documented behaviour of reportlab's \<^verbatim>\<open>Canvas.save\<close>: if there is current data, a
  ShowPage is executed automatically), then writes the document. The library is not part
  of the repository; these three operations are all the model takes from it.
\<close>

datatype op =
    SetFillColorRGB real real real
  | Rect real real real real
  | SetFont pystr nat
  | DrawString real real pystr
  | DrawImage image real real real real

record canvas =
  pages :: "op list list"
  page_code :: "op list"

definition new_canvas :: canvas where
  "new_canvas = \<lparr>pages = [], page_code = []\<rparr>"

definition draw :: "op list \<Rightarrow> canvas \<Rightarrow> canvas" where
  "draw ops c = c\<lparr>page_code := page_code c @ ops\<rparr>"

definition showPage :: "canvas \<Rightarrow> canvas" where
  "showPage c = c\<lparr>pages := pages c @ [page_code c], page_code := []\<rparr>"

definition save :: "canvas \<Rightarrow> op list list" where
  "save c = pages (if page_code c \<noteq> [] then showPage c else c)"

text \<open>\<^verbatim>\<open>Path.stem\<close>: the name without its last suffix.\<close>

definition stem :: "path \<Rightarrow> pystr" where
  "stem p =
     (let n = name p; dot = of_char CHR ''.''; after = length (takeWhile (\<lambda>c. c \<noteq> dot) (rev n))
      in if dot \<in> set n \<and> 0 < after \<and> Suc after < length n
         then take (length n - Suc after) n else n)"

definition display_name :: "path \<Rightarrow> pystr" where
  "display_name img_path =
     map (\<lambda>c. if c = of_char CHR ''_'' then of_char CHR '' '' else c) (stem img_path)"

text \<open>The heading: black bar, then the name in yellow.\<close>

definition draw_heading :: "page_size \<Rightarrow> path \<Rightarrow> canvas \<Rightarrow> canvas" where
  "draw_heading page_size img_path c =
     (let (page_width, page_height) = page_size
      in draw [SetFillColorRGB 0 0 0,
               Rect 40 (page_height - 65) (page_width - 80) 35,
               SetFillColorRGB 1 1 0,
               SetFont (str ''Helvetica-Bold'') 16,
               DrawString 50 (page_height - 50) (display_name img_path),
               SetFillColorRGB 0 0 0] c)"

text \<open>Opening the image and bringing it to mode RGB; the size is unchanged.\<close>

definition load_rgb :: "env \<Rightarrow> path \<Rightarrow> py_error + image" where
  "load_rgb e img_path =
     (case image_open e img_path of
        Inl err \<Rightarrow> Inl err
      | Inr img \<Rightarrow>
          if mode img \<in> set [str ''RGBA'', str ''LA'', str ''P''] then
            (case convert_error e img_path of
               Some err \<Rightarrow> Inl err
             | None \<Rightarrow> Inr (img\<lparr>mode := str ''RGB''\<rparr>))
          else if mode img \<noteq> str ''RGB'' then
            (case convert_error e img_path of
               Some err \<Rightarrow> Inl err
             | None \<Rightarrow> Inr (img\<lparr>mode := str ''RGB''\<rparr>))
          else Inr img)"

text \<open>
  The part of the loop body from \<^verbatim>\<open>Image.open\<close> to the JPEG buffer: the image as it
  will be drawn, with its layout, or the exception raised on the way.
\<close>

definition render_image :: "env \<Rightarrow> page_size \<Rightarrow> path \<Rightarrow> py_error + (image \<times> layout)" where
  "render_image e page_size img_path =
     (case load_rgb e img_path of
        Inl err \<Rightarrow> Inl err
      | Inr img \<Rightarrow>
          (case compute_layout page_size (width img) (height img) of
             Inl err \<Rightarrow> Inl err
           | Inr lay \<Rightarrow>
               (case encode_error e img_path of
                  Some err \<Rightarrow> Inl err
                | None \<Rightarrow>
                    Inr (if resize lay
                         then img\<lparr>width := target_pixel_width lay,
                                  height := target_pixel_height lay\<rparr>
                         else img, lay))))"

text \<open>
  The lines printed: the warning for an empty list, \<open>Added: name\<close> on standard output,
  \<open>Error processing name: exception\<close> on standard error, and the closing message.
\<close>

datatype log_line =
    NoImagesWarning
  | Added pystr
  | ErrorProcessing pystr py_error
  | PdfCreated

text \<open>
  One iteration of the loop, \<^verbatim>\<open>try\<close> and \<^verbatim>\<open>except\<close> together. The heading is drawn
  before the image is opened, so an exception leaves it on the current page.
\<close>

definition process_image ::
  "env \<Rightarrow> page_size \<Rightarrow> canvas \<times> log_line list \<Rightarrow> path \<Rightarrow> canvas \<times> log_line list" where
  "process_image e page_size st img_path =
     (let (c, lg) = st;
          c1 = draw_heading page_size img_path c
      in case render_image e page_size img_path of
           Inl err \<Rightarrow> (c1, lg @ [ErrorProcessing (name img_path) err])
         | Inr (img, lay) \<Rightarrow>
             (showPage
                (draw [DrawImage img (img_x lay) (img_y lay) (scaled_width lay) (scaled_height lay)] c1),
              lg @ [Added (name img_path)]))"

text \<open>
  The result of a call that returns: the document written to the output path (none when
  the function returns early) and the lines printed.
\<close>

record outcome =
  document :: "op list list option"
  printed :: "log_line list"

definition create_pdf_with_images :: "env \<Rightarrow> path list \<Rightarrow> page_size \<Rightarrow> py_error + outcome" where
  "create_pdf_with_images e image_files page_size =
     (if image_files = [] then Inr \<lparr>document = None, printed = [NoImagesWarning]\<rparr>
      else
        let (c, lg) = foldl (process_image e page_size) (new_canvas, []) image_files
        in case save_error e of
             Some err \<Rightarrow> Inl err
           | None \<Rightarrow> Inr \<lparr>document = Some (save c), printed = lg @ [PdfCreated]\<rparr>)"

subsection \<open>A sample world: one readable image and one corrupt file\<close>

definition good_png :: path where "good_png = \<lparr>parent = str ''uploads'', name = str ''good.png''\<rparr>"
definition bad_png :: path where "bad_png = \<lparr>parent = str ''uploads'', name = str ''bad.png''\<rparr>"

text \<open>\<open>good.png\<close> opens as a 4000 x 3000 RGB image; every other file is not an image.\<close>

definition sample_env :: env where
  "sample_env =
     \<lparr>image_open = (\<lambda>p. if p = good_png then Inr \<lparr>mode = str ''RGB'', width = 4000, height = 3000\<rparr>
                         else Inl UnidentifiedImageError),
      convert_error = (\<lambda>p. None),
      encode_error = (\<lambda>p. None),
      save_error = None\<rparr>"

subsection \<open>Auxiliary notion for the proofs\<close>

text \<open>The loop body completes for this file: no exception between the heading and the page break.\<close>

definition renders :: "env \<Rightarrow> page_size \<Rightarrow> path \<Rightarrow> bool" where
  "renders e page_size img_path =
     (case render_image e page_size img_path of Inl err \<Rightarrow> False | Inr r \<Rightarrow> True)"

section \<open>Properties of split_by_semicolon\<close>

lemma py_in_code:
  "py_in [] ys \<longleftrightarrow> True"
  "py_in (x # xs) [] \<longleftrightarrow> False"
  "py_in (x # xs) (y # ys) \<longleftrightarrow> prefix (x # xs) (y # ys) \<or> py_in (x # xs) ys"
  by (simp_all add: py_in_def sublist_Cons_right)

lemma py_in_single: "py_in [c] s \<longleftrightarrow> c \<in> set s"
  unfolding py_in_def by (induction s) (auto simp: sublist_Cons_right)

text \<open>
  Claim C3 (partition correctness). The two lists returned by \<open>split_by_semicolon\<close> are
  disjoint, a path of the input is in the first list exactly when its name contains
  \<open>;\<close> and in the second exactly when it does not, together they hold every input
  element as often as the input does, and each is a subsequence of the input, so it keeps
  the input's relative order.
\<close>

theorem split_by_semicolon_partition:
  "(case split_by_semicolon image_files of (group1, group2) \<Rightarrow>
      set group1 \<inter> set group2 = {} \<and>
      mset group1 + mset group2 = mset image_files \<and>
      subseq group1 image_files \<and> subseq group2 image_files \<and>
      (f \<in> set group1 \<longleftrightarrow> f \<in> set image_files \<and> py_in (str '';'') (name f)) \<and>
      (f \<in> set group2 \<longleftrightarrow> f \<in> set image_files \<and> \<not> py_in (str '';'') (name f)))"
  by (auto simp: split_by_semicolon_def Let_def)

section \<open>Properties of sort_by_priority\<close>

subsection \<open>list.index\<close>

lemma list_index_member:
  "x \<in> set xs \<Longrightarrow> list_index xs x = Inr (first_index xs x)"
  by (induction xs) (auto simp: first_index_def)

lemma list_index_absent:
  "x \<notin> set xs \<Longrightarrow> list_index xs x = Inl ValueError"
  by (induction xs) auto

lemma first_index_less: "x \<in> set xs \<Longrightarrow> first_index xs x < length xs"
  by (induction xs) (auto simp: first_index_def)

lemma first_index_nth: "x \<in> set xs \<Longrightarrow> xs ! first_index xs x = x"
  by (induction xs) (auto simp: first_index_def)

lemma first_index_least: "m < first_index xs x \<Longrightarrow> xs ! m \<noteq> x"
proof (induction xs arbitrary: m)
  case Nil
  then show ?case by (simp add: first_index_def)
next
  case (Cons y ys)
  show ?case
  proof (cases m)
    case 0
    with Cons.prems show ?thesis by (auto simp: first_index_def split: if_splits)
  next
    case (Suc k)
    with Cons.prems have "k < first_index ys x"
      by (auto simp: first_index_def split: if_splits)
    with Cons.IH Suc show ?thesis by simp
  qed
qed

lemma first_index_le: "xs ! i = x \<Longrightarrow> first_index xs x \<le> i"
  using first_index_least[of i xs x] by (cases "first_index xs x \<le> i") auto

lemma first_index_distinct:
  assumes "distinct xs" "i < length xs"
  shows "first_index xs (xs ! i) = i"
proof -
  have m: "xs ! i \<in> set xs" using assms(2) by simp
  have "xs ! first_index xs (xs ! i) = xs ! i" by (rule first_index_nth[OF m])
  with assms first_index_less[OF m] show ?thesis
    by (simp add: nth_eq_iff_index_eq)
qed

subsection \<open>The scan of the priority list\<close>

lemma first_match_shift:
  "first_match pl fn idx = map_option (\<lambda>n. n + idx) (first_match pl fn 0)"
proof (induction pl arbitrary: idx)
  case Nil
  show ?case by simp
next
  case (Cons p ps)
  have a: "first_match ps fn (Suc idx) = map_option (\<lambda>n. n + Suc idx) (first_match ps fn 0)"
    by (rule Cons.IH)
  have b: "first_match ps fn (Suc 0) = map_option (\<lambda>n. n + Suc 0) (first_match ps fn 0)"
    by (rule Cons.IH)
  show ?case
    by (simp add: a b option.map_comp comp_def)
qed

lemma first_match_Cons0:
  "first_match (p # ps) fn 0 =
     (if token_matches p fn then Some 0 else map_option Suc (first_match ps fn 0))"
  using first_match_shift[of ps fn "Suc 0"] by (simp add: token_matches_def)

lemma first_match_SomeD:
  "first_match pl fn 0 = Some n \<Longrightarrow>
     n < length pl \<and> token_matches (pl ! n) fn \<and> (\<forall>j<n. \<not> token_matches (pl ! j) fn)"
proof (induction pl arbitrary: n)
  case Nil
  then show ?case by simp
next
  case (Cons p ps)
  show ?case
  proof (cases "token_matches p fn")
    case True
    with Cons.prems show ?thesis
      by (simp add: first_match_Cons0 del: first_match.simps(2))
  next
    case False
    with Cons.prems obtain k where k: "first_match ps fn 0 = Some k" "n = Suc k"
      by (auto simp: first_match_Cons0 simp del: first_match.simps(2))
    from Cons.IH[OF k(1)] False k(2) show ?thesis
      by (auto simp: less_Suc_eq_0_disj)
  qed
qed

lemma first_match_SomeI:
  "i < length pl \<Longrightarrow> token_matches (pl ! i) fn \<Longrightarrow> \<exists>n\<le>i. first_match pl fn 0 = Some n"
proof (induction pl arbitrary: i)
  case Nil
  then show ?case by simp
next
  case (Cons p ps)
  show ?case
  proof (cases "token_matches p fn")
    case True
    then show ?thesis by (simp add: first_match_Cons0 del: first_match.simps(2))
  next
    case False
    with Cons.prems obtain k where k: "i = Suc k" by (cases i) auto
    with Cons.prems have "k < length ps" "token_matches (ps ! k) fn" by auto
    from Cons.IH[OF this] obtain n where "n \<le> k" "first_match ps fn 0 = Some n" by blast
    with False k show ?thesis by (simp add: first_match_Cons0 del: first_match.simps(2))
  qed
qed

lemma first_match_None:
  "first_match pl fn 0 = None \<longleftrightarrow> (\<forall>p\<in>set pl. \<not> token_matches p fn)"
  by (induction pl) (auto simp: first_match_Cons0 simp del: first_match.simps(2))

subsection \<open>The key never raises on a member, and the sort is insertion sort by the key\<close>

lemma get_priority_index_member:
  "f \<in> set files \<Longrightarrow> get_priority_index files pl f = Inr (prio_key files pl f)"
  by (simp add: get_priority_index_def prio_key_def list_index_member split: option.split)

lemma decorate_total:
  "\<forall>x\<in>set xs. key x = Inr (k x) \<Longrightarrow> decorate key xs = Inr (map (\<lambda>x. (k x, x)) xs)"
  by (induction xs) auto

lemma sort_key_decorated_aux:
  "sort_key fst (map (\<lambda>x. (k x, x)) xs) = map (\<lambda>x. (k x, x)) (sort_key k xs)"
proof (induction xs)
  case Nil
  show ?case by simp
next
  case (Cons x xs)
  have "insort_key fst (k x, x) (map (\<lambda>y. (k y, y)) ys) = map (\<lambda>y. (k y, y)) (insort_key k x ys)" for ys
    by (induction ys) auto
  with Cons show ?case by simp
qed

lemma sort_key_decorated:
  "map snd (sort_key fst (map (\<lambda>x. (k x, x)) xs)) = sort_key k xs"
  by (simp add: sort_key_decorated_aux comp_def)

lemma sorted_py_total:
  "\<forall>x\<in>set xs. key x = Inr (k x) \<Longrightarrow> sorted_py key xs = Inr (sort_key k xs)"
  using decorate_total[of xs key k] by (simp add: sorted_py_def sort_key_decorated)

lemma sort_by_priority_eq:
  "sort_by_priority files pl = Inr (sort_key (prio_key files pl) files)"
  unfolding sort_by_priority_def
  by (rule sorted_py_total) (simp add: get_priority_index_member)

lemma sorted_key_nth_order:
  assumes "sorted (map k out)" "p < length out" "q < length out" "k (out ! p) < k (out ! q)"
  shows "p < q"
proof (rule ccontr)
  assume "\<not> p < q"
  then have "q \<le> p" by simp
  with assms(1,2) have "map k out ! q \<le> map k out ! p"
    by (simp add: sorted_iff_nth_mono del: nth_map)
  with assms(2,3,4) show False by simp
qed

lemma prio_key_matched:
  "i < length pl \<Longrightarrow> token_matches (pl ! i) (name a) \<Longrightarrow> prio_key files pl a \<le> i"
  using first_match_SomeI[of i pl "name a"] by (auto simp: prio_key_def)

lemma prio_key_later:
  assumes "\<forall>j\<le>i. j < length pl \<longrightarrow> \<not> token_matches (pl ! j) (name b)" "i < length pl"
  shows "i < prio_key files pl b"
proof (cases "first_match pl (name b) 0")
  case None
  with assms(2) show ?thesis by (simp add: prio_key_def)
next
  case (Some n)
  from first_match_SomeD[OF Some] assms(1) have "\<not> n \<le> i" by blast
  with Some show ?thesis by (simp add: prio_key_def)
qed

lemma prio_key_Some_iff:
  "k < length pl \<Longrightarrow> first_match pl (name f) 0 = Some k \<longleftrightarrow> prio_key files pl f = k"
  using first_match_SomeD[of pl "name f"]
  by (auto simp: prio_key_def split: option.splits)

subsection \<open>Priority order\<close>

text \<open>
  Claim C1 (priority determinism). The sort returns a permutation of its input. If the
  name of \<open>a\<close> equals or contains the priority token at index \<open>i\<close>, and the name of
  \<open>b\<close> matches no token at an index up to \<open>i\<close> (so \<open>b\<close> matches only at some later
  index, or nowhere), then every occurrence of \<open>a\<close> in the output is before every
  occurrence of \<open>b\<close>.
\<close>

theorem sort_by_priority_priority_order:
  assumes "i < length priority_list"
    and "priority_list ! i = name a \<or> py_in (priority_list ! i) (name a)"
    and "\<forall>j\<le>i. j < length priority_list \<longrightarrow>
           \<not> (priority_list ! j = name b \<or> py_in (priority_list ! j) (name b))"
  shows "\<exists>out. sort_by_priority files priority_list = Inr out \<and> mset out = mset files \<and>
           (\<forall>p q. p < length out \<and> q < length out \<and> out ! p = a \<and> out ! q = b \<longrightarrow> p < q)"
proof -
  let ?k = "prio_key files priority_list"
  let ?out = "sort_key ?k files"
  have lt: "?k a < ?k b"
    using prio_key_matched[of i priority_list a files] prio_key_later[of i priority_list b files] assms
    by (simp add: token_matches_def)
  have "p < q" if "p < length ?out" "q < length ?out" "?out ! p = a" "?out ! q = b" for p q
    using sorted_key_nth_order[of ?k ?out p q] that lt by simp
  then show ?thesis
    by (simp add: sort_by_priority_eq)
qed

theorem sort_by_priority_priority_order_witness:
  "(0::nat) < length [str ''b'', str ''a''] \<and>
   py_in ([str ''b'', str ''a''] ! 0) (name b_png) \<and>
   (\<exists>out. sort_by_priority [a_png, b_png, c_png] [str ''b'', str ''a''] = Inr out \<and>
      mset out = mset [a_png, b_png, c_png] \<and>
      (\<forall>p q. p < length out \<and> q < length out \<and> out ! p = b_png \<and> out ! q = a_png \<longrightarrow> p < q))"
proof -
  have h1: "(0::nat) < length [str ''b'', str ''a'']" by simp
  have h2: "py_in ([str ''b'', str ''a''] ! 0) (name b_png)"
    by (simp add: b_png_def str_def py_in_code)
  have h3: "\<forall>j\<le>0. j < length [str ''b'', str ''a''] \<longrightarrow>
      \<not> ([str ''b'', str ''a''] ! j = name a_png \<or> py_in ([str ''b'', str ''a''] ! j) (name a_png))"
    by (simp add: a_png_def str_def py_in_code)
  from sort_by_priority_priority_order[OF h1 disjI2[OF h2] h3, of "[a_png, b_png, c_png]"] h1 h2
  show ?thesis by blast
qed

subsection \<open>Stability\<close>

text \<open>
  For the assets whose first matching token has a given index \<open>k\<close>, the output keeps the
  input order, whatever the input.
\<close>

lemma sort_by_priority_stable_matched:
  "\<exists>out. sort_by_priority files pl = Inr out \<and>
     filter (\<lambda>f. first_match pl (name f) 0 = Some k) out =
     filter (\<lambda>f. first_match pl (name f) 0 = Some k) files"
proof (cases "k < length pl")
  case True
  then have "(\<lambda>f. first_match pl (name f) 0 = Some k) = (\<lambda>f. prio_key files pl f = k)"
    by (intro ext) (simp add: prio_key_Some_iff)
  then show ?thesis
    by (simp add: sort_by_priority_eq sort_key_stable)
next
  case False
  have ne: "first_match pl (name f) 0 \<noteq> Some k" for f :: path
    using first_match_SomeD[of pl "name f" k] False by auto
  have "filter (\<lambda>f. first_match pl (name f) 0 = Some k) xs = []" for xs :: "path list"
    by (simp add: filter_empty_conv ne)
  then show ?thesis
    by (simp add: sort_by_priority_eq)
qed

text \<open>
  For the assets that match no token, the output keeps the input order when no path
  occurs twice in the input.
\<close>

lemma sorted_first_index_distinct:
  assumes "distinct xs"
  shows "sorted (map (\<lambda>f. c + first_index xs f) xs)"
  using assms by (auto simp: sorted_iff_nth_mono first_index_distinct)

lemma sort_by_priority_stable_unmatched:
  assumes "distinct files"
  shows "\<exists>out. sort_by_priority files pl = Inr out \<and>
     filter (\<lambda>f. first_match pl (name f) 0 = None) out =
     filter (\<lambda>f. first_match pl (name f) 0 = None) files"
proof -
  let ?U = "\<lambda>f. first_match pl (name f) 0 = None"
  let ?K = "prio_key files pl"
  have eq: "map ?K (filter ?U files) = map (\<lambda>f. length pl + first_index files f) (filter ?U files)"
    by (rule map_cong) (auto simp: prio_key_def)
  have "sorted (map ?K (filter ?U files))"
    unfolding eq using sorted_first_index_distinct[OF assms] by (rule sorted_filter)
  then have "sort_key ?K (filter ?U files) = filter ?U files"
    by (rule sort_key_id_if_sorted)
  then show ?thesis
    by (simp add: sort_by_priority_eq filter_sort)
qed

text \<open>
  Claim C2 (stability) fails on an input with a repeated path. In \<open>[x.png, y.png, x.png]\<close>
  with an empty priority list no asset matches a token; \<^verbatim>\<open>files.index\<close> gives both
  occurrences of \<open>x.png\<close> the position of the first one, so the second occurrence is
  sorted before \<open>y.png\<close>: the output restricted to the unmatched assets is
  \<open>[x.png, x.png, y.png]\<close>, not their input order.
\<close>

theorem sort_by_priority_duplicates_reordered:
  "sort_by_priority [x_png, y_png, x_png] [] = Inr [x_png, x_png, y_png] \<and>
   filter (\<lambda>f. first_match [] (name f) 0 = None) [x_png, x_png, y_png] \<noteq>
   filter (\<lambda>f. first_match [] (name f) 0 = None) [x_png, y_png, x_png]"
proof -
  have "x_png \<noteq> y_png"
    by (simp add: x_png_def y_png_def str_def)
  then show ?thesis
    by (simp add: sort_by_priority_def sorted_py_def get_priority_index_def)
qed

subsection \<open>Repeated entries\<close>

lemma map_sort_key_comp:
  "map g (sort_key (\<lambda>x. k (g x)) xs) = sort_key k (map g xs)"
proof (induction xs)
  case Nil
  show ?case by simp
next
  case (Cons x xs)
  have "map g (insort_key (\<lambda>x. k (g x)) x ys) = insort_key k (g x) (map g ys)" for ys
    by (induction ys) auto
  with Cons show ?case by simp
qed

lemma filter_sort_key_same_key:
  assumes "\<And>x. P x \<Longrightarrow> k x = c"
  shows "filter P (sort_key k xs) = filter P xs"
proof -
  have "filter P ys = filter P (filter (\<lambda>y. k y = c) ys)" for ys
    using assms by (auto intro: filter_cong)
  then have "filter P (sort_key k xs) = filter P (filter (\<lambda>y. k y = c) (sort_key k xs))"
    by blast
  also have "\<dots> = filter P (filter (\<lambda>y. k y = c) xs)"
    by (simp only: sort_key_stable)
  also have "\<dots> = filter P xs"
    using assms by (auto intro: filter_cong)
  finally show ?thesis .
qed

text \<open>
  Claim C10 as stated fails: \<^verbatim>\<open>files.index\<close> compares paths, not filenames. Two entries
  with the same filename in different directories, neither matching a token, get
  different keys.
\<close>

theorem same_name_different_keys:
  "name a_x_png = name b_x_png \<and>
   first_match [] (name a_x_png) 0 = None \<and> first_match [] (name b_x_png) 0 = None \<and>
   get_priority_index [a_x_png, b_x_png] [] a_x_png = Inr 0 \<and>
   get_priority_index [a_x_png, b_x_png] [] b_x_png = Inr 1 \<and>
   get_priority_index [a_x_png, b_x_png] [] a_x_png \<noteq>
   get_priority_index [a_x_png, b_x_png] [] b_x_png"
  by (simp add: get_priority_index_def a_x_png_def b_x_png_def str_def)

text \<open>
  Claim C10, amended: two entries at positions \<open>i < j\<close> that are the same path (the same
  directory and the same filename), matching no priority token, both get the key
  \<open>len(priority_list) + k\<close>, where \<open>k\<close> is the position of the first occurrence of that
  path. The sort returns a permutation of the input. Sorting the entries tagged with
  their input positions gives the same order of paths, and the occurrences of the
  repeated path come out in the order of their input positions.
\<close>

theorem duplicate_paths_share_key:
  assumes "i < j" "j < length files" "files ! i = files ! j"
    and "first_match priority_list (name (files ! i)) 0 = None"
  shows "\<exists>k out tagged.
       k \<le> i \<and> files ! k = files ! i \<and> (\<forall>m<k. files ! m \<noteq> files ! i) \<and>
       get_priority_index files priority_list (files ! i) = Inr (length priority_list + k) \<and>
       get_priority_index files priority_list (files ! j) = Inr (length priority_list + k) \<and>
       sort_by_priority files priority_list = Inr out \<and> mset out = mset files \<and>
       sorted_py (\<lambda>(n, f). get_priority_index files priority_list f) (enumerate 0 files) = Inr tagged \<and>
       map snd tagged = out \<and>
       filter (\<lambda>(n, f). f = files ! i) tagged = filter (\<lambda>(n, f). f = files ! i) (enumerate 0 files)"
proof -
  let ?a = "files ! i"
  let ?K = "prio_key files priority_list"
  let ?k = "first_index files ?a"
  let ?tagged = "sort_key (\<lambda>x. ?K (snd x)) (enumerate 0 files)"
  have mem: "?a \<in> set files" using assms(1,2) by simp
  have Ka: "?K ?a = length priority_list + ?k"
    using assms(4) by (simp add: prio_key_def)
  have key: "get_priority_index files priority_list ?a = Inr (length priority_list + ?k)"
    using get_priority_index_member[OF mem] Ka by simp
  have "\<forall>x\<in>set (enumerate 0 files).
          (\<lambda>(n, f). get_priority_index files priority_list f) x = Inr (?K (snd x))"
    by (auto simp: in_set_enumerate_eq get_priority_index_member)
  then have tagged: "sorted_py (\<lambda>(n, f). get_priority_index files priority_list f) (enumerate 0 files)
      = Inr ?tagged"
    by (rule sorted_py_total)
  have snd_tagged: "map snd ?tagged = sort_key ?K files"
    by (simp add: map_sort_key_comp)
  have order: "filter (\<lambda>(n, f). f = ?a) ?tagged = filter (\<lambda>(n, f). f = ?a) (enumerate 0 files)"
    by (rule filter_sort_key_same_key[where c = "?K ?a"]) auto
  show ?thesis
    apply (rule exI[of _ ?k], rule exI[of _ "sort_key ?K files"], rule exI[of _ ?tagged])
    using first_index_le[of files i ?a] first_index_nth[OF mem] first_index_least[of _ files ?a]
      key assms(3) tagged snd_tagged order
    by (simp add: sort_by_priority_eq)
qed

theorem duplicate_paths_share_key_witness:
  "(0::nat) < 2 \<and> (2::nat) < length [x_png, y_png, x_png] \<and>
   [x_png, y_png, x_png] ! 0 = [x_png, y_png, x_png] ! 2 \<and>
   first_match [] (name ([x_png, y_png, x_png] ! 0)) 0 = None \<and>
   (\<exists>k out tagged.
       k \<le> 0 \<and> [x_png, y_png, x_png] ! k = [x_png, y_png, x_png] ! 0 \<and>
       (\<forall>m<k. [x_png, y_png, x_png] ! m \<noteq> [x_png, y_png, x_png] ! 0) \<and>
       get_priority_index [x_png, y_png, x_png] [] ([x_png, y_png, x_png] ! 0) = Inr (length ([] :: pystr list) + k) \<and>
       get_priority_index [x_png, y_png, x_png] [] ([x_png, y_png, x_png] ! 2) = Inr (length ([] :: pystr list) + k) \<and>
       sort_by_priority [x_png, y_png, x_png] [] = Inr out \<and> mset out = mset [x_png, y_png, x_png] \<and>
       sorted_py (\<lambda>(n, f). get_priority_index [x_png, y_png, x_png] [] f) (enumerate 0 [x_png, y_png, x_png]) = Inr tagged \<and>
       map snd tagged = out \<and>
       filter (\<lambda>(n, f). f = [x_png, y_png, x_png] ! 0) tagged =
       filter (\<lambda>(n, f). f = [x_png, y_png, x_png] ! 0) (enumerate 0 [x_png, y_png, x_png]))"
proof -
  have h1: "(0::nat) < 2" by simp
  have h2: "(2::nat) < length [x_png, y_png, x_png]" by simp
  have h3: "[x_png, y_png, x_png] ! 0 = [x_png, y_png, x_png] ! 2" by simp
  have h4: "first_match [] (name ([x_png, y_png, x_png] ! 0)) 0 = None" by simp
  from duplicate_paths_share_key[OF h1 h2 h3 h4] h1 h2 h3 h4
  show ?thesis by blast
qed

section \<open>Properties of parse_priority_list\<close>

lemma split_not_Nil: "split sep s \<noteq> []"
  by (induction s) (auto split: list.splits)

lemma join_split: "join [sep] (split sep s) = s"
proof (induction s)
  case Nil
  show ?case by simp
next
  case (Cons c cs)
  obtain item items where r: "split sep cs = item # items"
    using split_not_Nil[of sep cs] by (cases "split sep cs") auto
  with Cons show ?case
    by (cases items) auto
qed

lemma split_no_sep: "item \<in> set (split sep s) \<Longrightarrow> sep \<notin> set item"
  by (induction s arbitrary: item) (auto split: if_splits list.splits)

lemma strip_decompose:
  "\<exists>l r. s = l @ strip s @ r \<and> (\<forall>c\<in>set l. isspace c) \<and> (\<forall>c\<in>set r. isspace c)"
proof -
  let ?l = "takeWhile isspace s"
  let ?m = "dropWhile isspace s"
  let ?r = "rev (takeWhile isspace (rev ?m))"
  have "?m = rev (takeWhile isspace (rev ?m) @ dropWhile isspace (rev ?m))"
    by (simp only: takeWhile_dropWhile_id rev_rev_ident)
  also have "\<dots> = strip s @ ?r"
    by (simp only: rev_append strip_def)
  finally have "?m = strip s @ ?r" .
  then have "s = ?l @ strip s @ ?r"
    using takeWhile_dropWhile_id[of isspace s] by simp
  moreover have "\<forall>c\<in>set ?l. isspace c" by (auto dest: set_takeWhileD)
  moreover have "\<forall>c\<in>set ?r. isspace c" by (auto dest: set_takeWhileD)
  ultimately show ?thesis by blast
qed

lemma dropWhile_all_iff: "(\<forall>x\<in>set (dropWhile P xs). P x) \<longleftrightarrow> dropWhile P xs = []"
proof
  assume a: "\<forall>x\<in>set (dropWhile P xs). P x"
  show "dropWhile P xs = []"
  proof (rule ccontr)
    assume n: "dropWhile P xs \<noteq> []"
    then have "\<not> P (hd (dropWhile P xs))" by (rule hd_dropWhile)
    moreover have "hd (dropWhile P xs) \<in> set (dropWhile P xs)" using n by (rule hd_in_set)
    ultimately show False using a by blast
  qed
next
  assume "dropWhile P xs = []"
  then show "\<forall>x\<in>set (dropWhile P xs). P x" by (simp only: set_simps ball_empty)
qed

lemma strip_Nil_iff: "strip s = [] \<longleftrightarrow> (\<forall>c\<in>set s. isspace c)"
proof -
  have "strip s = [] \<longleftrightarrow> (\<forall>x\<in>set (dropWhile isspace s). isspace x)"
    by (simp add: strip_def dropWhile_eq_Nil_conv)
  also have "\<dots> \<longleftrightarrow> dropWhile isspace s = []" by (rule dropWhile_all_iff)
  also have "\<dots> \<longleftrightarrow> (\<forall>c\<in>set s. isspace c)" by (simp add: dropWhile_eq_Nil_conv)
  finally show ?thesis .
qed

lemma strip_ends:
  assumes "strip s \<noteq> []"
  shows "\<not> isspace (hd (strip s)) \<and> \<not> isspace (last (strip s))"
proof -
  let ?m = "dropWhile isspace s"
  let ?t = "dropWhile isspace (rev ?m)"
  have t: "?t \<noteq> []" using assms by (simp add: strip_def)
  then have a: "\<not> isspace (hd ?t)" by (rule hd_dropWhile)
  have m: "?m \<noteq> []"
  proof
    assume "?m = []"
    then have "?t = []" by (simp only: rev.simps dropWhile.simps)
    with t show False by blast
  qed
  then have "\<not> isspace (hd ?m)" by (rule hd_dropWhile)
  then have "\<not> isspace (last (rev ?m))" using m by (simp add: last_rev)
  moreover have "last ?t = last (rev ?m)"
  proof -
    have "rev ?m = takeWhile isspace (rev ?m) @ ?t" by simp
    then have "last (rev ?m) = last (takeWhile isspace (rev ?m) @ ?t)" by simp
    also have "\<dots> = last ?t" using t by (rule last_appendR)
    finally show ?thesis by simp
  qed
  ultimately have b: "\<not> isspace (last ?t)" by simp
  show ?thesis using a b t by (simp add: strip_def hd_rev last_rev)
qed


lemma split_items_subset: "item \<in> set (split sep s) \<Longrightarrow> set item \<subseteq> set s"
proof (induction s arbitrary: item)
  case Nil
  then show ?case by simp
next
  case (Cons c cs)
  obtain it its where r: "split sep cs = it # its"
    using split_not_Nil[of sep cs] by (cases "split sep cs") auto
  show ?case
  proof (cases "c = sep")
    case True
    with Cons.prems have "item = [] \<or> item \<in> set (split sep cs)" by simp
    with Cons.IH[of item] show ?thesis by auto
  next
    case False
    with Cons.prems r have "item = c # it \<or> item \<in> set its" by simp
    with Cons.IH[of it] Cons.IH[of item] r show ?thesis by auto
  qed
qed

lemma parse_priority_list_eq:
  "parse_priority_list s =
     map strip (filter (\<lambda>item. \<not> (\<forall>c\<in>set item. isspace c)) (split comma s))"
  by (cases s) (simp_all add: parse_priority_list_def strip_Nil_iff)

text \<open>
  Claim C9 (parser contract). \<open>parse_priority_list\<close> returns the entries of the
  comma-separated input, each stripped of surrounding whitespace, without the entries that
  are empty or all whitespace, in their order and with repetitions. The entries are the
  pieces of \<^verbatim>\<open>split(',')\<close>: joined with commas they give the input back, and none
  holds a comma. Stripping removes only whitespace at both ends, so every returned token
  is non-empty and neither starts nor ends with whitespace. An empty or all-whitespace
  input gives the empty list.
\<close>

theorem parse_priority_list_contract:
  "parse_priority_list s =
     map strip (filter (\<lambda>item. \<not> (\<forall>c\<in>set item. isspace c)) (split comma s)) \<and>
   join [comma] (split comma s) = s \<and>
   (\<forall>item\<in>set (split comma s). comma \<notin> set item) \<and>
   (\<forall>item. \<exists>l r. item = l @ strip item @ r \<and> (\<forall>c\<in>set l. isspace c) \<and> (\<forall>c\<in>set r. isspace c)) \<and>
   (\<forall>t\<in>set (parse_priority_list s). t \<noteq> [] \<and> \<not> isspace (hd t) \<and> \<not> isspace (last t)) \<and>
   ((\<forall>c\<in>set s. isspace c) \<longrightarrow> parse_priority_list s = [])"
proof (intro conjI)
  show "parse_priority_list s =
     map strip (filter (\<lambda>item. \<not> (\<forall>c\<in>set item. isspace c)) (split comma s))"
    by (rule parse_priority_list_eq)
  show "join [comma] (split comma s) = s"
    by (rule join_split)
  show "\<forall>item\<in>set (split comma s). comma \<notin> set item"
    using split_no_sep by blast
  show "\<forall>item. \<exists>l r. item = l @ strip item @ r \<and> (\<forall>c\<in>set l. isspace c) \<and> (\<forall>c\<in>set r. isspace c)"
    using strip_decompose by blast
  show "\<forall>t\<in>set (parse_priority_list s). t \<noteq> [] \<and> \<not> isspace (hd t) \<and> \<not> isspace (last t)"
  proof
    fix t assume "t \<in> set (parse_priority_list s)"
    then obtain item where "t = strip item" "\<not> (\<forall>c\<in>set item. isspace c)"
      unfolding parse_priority_list_eq by auto
    then show "t \<noteq> [] \<and> \<not> isspace (hd t) \<and> \<not> isspace (last t)"
      using strip_ends[of item] strip_Nil_iff[of item] by simp
  qed
  show "(\<forall>c\<in>set s. isspace c) \<longrightarrow> parse_priority_list s = []"
  proof
    assume a: "\<forall>c\<in>set s. isspace c"
    have "\<forall>c\<in>set item. isspace c" if "item \<in> set (split comma s)" for item
      using split_items_subset[OF that] a by blast
    then show "parse_priority_list s = []"
      unfolding parse_priority_list_eq by (simp add: filter_empty_conv)
  qed
qed

theorem parse_priority_list_contract_witness:
  "parse_priority_list (str '' b, ,a,,b '') =
     map strip (filter (\<lambda>item. \<not> (\<forall>c\<in>set item. isspace c)) (split comma (str '' b, ,a,,b ''))) \<and>
   parse_priority_list (str '' b, ,a,,b '') = [str ''b'', str ''a'', str ''b''] \<and>
   join [comma] (split comma (str '' b, ,a,,b '')) = str '' b, ,a,,b '' \<and>
   set (parse_priority_list (str '' b, ,a,,b '')) \<noteq> {} \<and>
   set (split comma (str '' b, ,a,,b '')) \<noteq> {} \<and>
   parse_priority_list (str ''  '') = []"
proof -
  have ws: "\<forall>c\<in>set (str ''  ''). isspace c"
    by (simp add: str_def isspace_def)
  have ex: "parse_priority_list (str '' b, ,a,,b '') = [str ''b'', str ''a'', str ''b'']"
    by (simp add: parse_priority_list_def str_def comma_def strip_def isspace_def)
  have ne: "split comma (str '' b, ,a,,b '') \<noteq> []"
    by (simp add: str_def comma_def)
  note t1 = parse_priority_list_contract[of "str '' b, ,a,,b ''"]
  note t2 = parse_priority_list_contract[of "str ''  ''"]
  have c1: "parse_priority_list (str '' b, ,a,,b '') =
     map strip (filter (\<lambda>item. \<not> (\<forall>c\<in>set item. isspace c)) (split comma (str '' b, ,a,,b '')))"
    by (rule conjunct1[OF t1])
  have c2: "join [comma] (split comma (str '' b, ,a,,b '')) = str '' b, ,a,,b ''"
    by (rule conjunct1[OF conjunct2[OF t1]])
  have e: "parse_priority_list (str ''  '') = []"
    using t2 ws by blast
  have ne1: "set (parse_priority_list (str '' b, ,a,,b '')) \<noteq> {}"
    using ex by simp
  have ne2: "set (split comma (str '' b, ,a,,b '')) \<noteq> {}"
    using ne by simp
  show ?thesis
    by (intro conjI c1 ex c2 ne1 ne2 e)
qed

text \<open>
  Claim C8 (worked scenario). The priority string \<open>b,a\<close> parses to \<open>[b, a]\<close>; the
  names \<open>a.png\<close>, \<open>b.png\<close>, \<open>c.png\<close> hold no semicolon, so all three are in the
  second group; their keys are 1, 0 and \<open>2 + 2 = 4\<close>, and the sort returns
  \<open>[b.png, a.png, c.png]\<close>.
\<close>

theorem worked_scenario_b_a:
  "parse_priority_list (str ''b,a'') = [str ''b'', str ''a''] \<and>
   split_by_semicolon [a_png, b_png, c_png] = ([], [a_png, b_png, c_png]) \<and>
   get_priority_index [a_png, b_png, c_png] (parse_priority_list (str ''b,a'')) a_png = Inr 1 \<and>
   get_priority_index [a_png, b_png, c_png] (parse_priority_list (str ''b,a'')) b_png = Inr 0 \<and>
   get_priority_index [a_png, b_png, c_png] (parse_priority_list (str ''b,a'')) c_png =
     Inr (length (parse_priority_list (str ''b,a'')) + 2) \<and>
   length (parse_priority_list (str ''b,a'')) + 2 = 4 \<and>
   sort_by_priority [a_png, b_png, c_png] (parse_priority_list (str ''b,a'')) =
     Inr [b_png, a_png, c_png]"
proof -
  have p: "parse_priority_list (str ''b,a'') = [[98], [97]]"
    by (simp add: parse_priority_list_def str_def comma_def strip_def isspace_def)
  have s: "str ''b'' = [98]" "str ''a'' = [97]"
    by (simp_all add: str_def)
  have g: "split_by_semicolon [a_png, b_png, c_png] = ([], [a_png, b_png, c_png])"
    by (simp add: split_by_semicolon_def a_png_def b_png_def c_png_def str_def py_in_code)
  have k: "get_priority_index [a_png, b_png, c_png] [[98], [97]] a_png = Inr 1"
     "get_priority_index [a_png, b_png, c_png] [[98], [97]] b_png = Inr 0"
     "get_priority_index [a_png, b_png, c_png] [[98], [97]] c_png = Inr 4"
    by (simp_all add: get_priority_index_def a_png_def b_png_def c_png_def str_def py_in_code)
  have "sort_by_priority [a_png, b_png, c_png] [[98], [97]] = Inr [b_png, a_png, c_png]"
    by (simp add: sort_by_priority_def sorted_py_def k)
  with p s g k show ?thesis by simp
qed

section \<open>Properties of create_pdf_with_images\<close>

subsection \<open>Layout\<close>

lemma compute_layout_Inr:
  assumes "img_width \<noteq> 0" "img_height \<noteq> 0"
  shows "compute_layout (page_width, page_height) img_width img_height =
     Inr \<lparr>scale_ratio = min ((page_width - 100) / real_of_int img_width)
                          (min ((page_height - 150) / real_of_int img_height) 1),
          scaled_width = real_of_int img_width *
             min ((page_width - 100) / real_of_int img_width)
               (min ((page_height - 150) / real_of_int img_height) 1),
          scaled_height = real_of_int img_height *
             min ((page_width - 100) / real_of_int img_width)
               (min ((page_height - 150) / real_of_int img_height) 1),
          target_pixel_width = py_int (real_of_int img_width *
             min ((page_width - 100) / real_of_int img_width)
               (min ((page_height - 150) / real_of_int img_height) 1) * 2),
          target_pixel_height = py_int (real_of_int img_height *
             min ((page_width - 100) / real_of_int img_width)
               (min ((page_height - 150) / real_of_int img_height) 1) * 2),
          resize = (img_width > py_int (real_of_int img_width *
             min ((page_width - 100) / real_of_int img_width)
               (min ((page_height - 150) / real_of_int img_height) 1) * 2) \<or>
            img_height > py_int (real_of_int img_height *
             min ((page_width - 100) / real_of_int img_width)
               (min ((page_height - 150) / real_of_int img_height) 1) * 2)),
          img_x = (page_width - real_of_int img_width *
             min ((page_width - 100) / real_of_int img_width)
               (min ((page_height - 150) / real_of_int img_height) 1)) / 2,
          img_y = page_height - 100 - real_of_int img_height *
             min ((page_width - 100) / real_of_int img_width)
               (min ((page_height - 150) / real_of_int img_height) 1)\<rparr>"
  unfolding compute_layout_def Let_def prod.case using assms by (simp only: if_False)


lemma compute_layout_zero:
  "img_width = 0 \<or> img_height = 0 \<Longrightarrow>
     compute_layout (page_width, page_height) img_width img_height = Inl ZeroDivisionError"
  unfolding compute_layout_def Let_def prod.case by auto

lemma compute_layout_fields:
  assumes "compute_layout (page_width, page_height) img_width img_height = Inr lay"
  shows "img_width \<noteq> 0" "img_height \<noteq> 0"
    "scale_ratio lay = min ((page_width - 100) / real_of_int img_width)
                          (min ((page_height - 150) / real_of_int img_height) 1)"
    "scaled_width lay = real_of_int img_width * scale_ratio lay"
    "scaled_height lay = real_of_int img_height * scale_ratio lay"
    "target_pixel_width lay = py_int (scaled_width lay * 2)"
    "target_pixel_height lay = py_int (scaled_height lay * 2)"
    "resize lay \<longleftrightarrow> img_width > target_pixel_width lay \<or> img_height > target_pixel_height lay"
    "img_x lay = (page_width - scaled_width lay) / 2"
    "img_y lay = page_height - 100 - scaled_height lay"
proof -
  show w: "img_width \<noteq> 0" and h: "img_height \<noteq> 0"
    using assms compute_layout_zero[of img_width img_height page_width page_height] by auto
  note eq = assms[unfolded compute_layout_Inr[OF w h], simplified, symmetric]
  show "scale_ratio lay = min ((page_width - 100) / real_of_int img_width)
                          (min ((page_height - 150) / real_of_int img_height) 1)"
    by (subst eq) (simp only: layout.simps)
  show "scaled_width lay = real_of_int img_width * scale_ratio lay"
    by (subst (1 2) eq) (simp only: layout.simps)
  show "scaled_height lay = real_of_int img_height * scale_ratio lay"
    by (subst (1 2) eq) (simp only: layout.simps)
  show "target_pixel_width lay = py_int (scaled_width lay * 2)"
    by (subst (1 2) eq) (simp only: layout.simps)
  show "target_pixel_height lay = py_int (scaled_height lay * 2)"
    by (subst (1 2) eq) (simp only: layout.simps)
  show "resize lay \<longleftrightarrow> img_width > target_pixel_width lay \<or> img_height > target_pixel_height lay"
    by (subst (1 2 3) eq) (simp only: layout.simps)
  show "img_x lay = (page_width - scaled_width lay) / 2"
    by (subst (1 2) eq) (simp only: layout.simps)
  show "img_y lay = page_height - 100 - scaled_height lay"
    by (subst (1 2) eq) (simp only: layout.simps)
qed


text \<open>
  Claim C4 (no upscale). For an image of positive width and height and any page size the
  layout is computed without error, its scale ratio is
  \<open>min(available_width / img_width, available_height / img_height, 1)\<close>, which is at
  most 1, and the drawn rectangle \<open>scaled_width x scaled_height\<close> is no larger than the
  image in either dimension.
\<close>

theorem no_upscale:
  assumes "0 < img_width" "0 < img_height"
  shows "\<exists>lay. compute_layout (page_width, page_height) img_width img_height = Inr lay \<and>
     scale_ratio lay =
       min ((page_width - 100) / real_of_int img_width)
         (min ((page_height - 150) / real_of_int img_height) 1) \<and>
     scale_ratio lay \<le> 1 \<and>
     scaled_width lay = real_of_int img_width * scale_ratio lay \<and>
     scaled_height lay = real_of_int img_height * scale_ratio lay \<and>
     scaled_width lay \<le> real_of_int img_width \<and>
     scaled_height lay \<le> real_of_int img_height"
proof -
  have "img_width \<noteq> 0" "img_height \<noteq> 0" using assms by simp_all
  from compute_layout_Inr[OF this] obtain lay where
    lay: "compute_layout (page_width, page_height) img_width img_height = Inr lay"
    by blast
  note f = compute_layout_fields[OF lay]
  have "min ((page_width - 100) / real_of_int img_width)
         (min ((page_height - 150) / real_of_int img_height) 1) \<le> 1"
    by (rule min.coboundedI2) (rule min.cobounded2)
  then have s: "scale_ratio lay \<le> 1" by (simp only: f(3))
  have w: "real_of_int img_width * scale_ratio lay \<le> real_of_int img_width"
    using s assms(1) by (intro mult_left_le) simp_all
  have h: "real_of_int img_height * scale_ratio lay \<le> real_of_int img_height"
    using s assms(2) by (intro mult_left_le) simp_all
  from lay f(3) s f(4) f(5) w h show ?thesis
    by (intro exI[of _ lay] conjI) (simp_all only: f(4) f(5))
qed








lemma sample_layout:
  "compute_layout (612, 792) 4000 3000 =
     Inr \<lparr>scale_ratio = 16 / 125, scaled_width = 512, scaled_height = 384,
          target_pixel_width = 1024, target_pixel_height = 768, resize = True,
          img_x = 50, img_y = 308\<rparr>"
  by (simp add: compute_layout_Inr py_int_def)

theorem no_upscale_witness:
  "(0::int) < 4000 \<and> (0::int) < 3000 \<and>
   (\<exists>lay. compute_layout (612, 792) 4000 3000 = Inr lay \<and>
      scale_ratio lay = 16 / 125 \<and> scale_ratio lay \<le> 1 \<and>
      scaled_width lay = 512 \<and> scaled_height lay = 384 \<and>
      scaled_width lay \<le> real_of_int 4000 \<and> scaled_height lay \<le> real_of_int 3000)"
proof -
  have h1: "(0::int) < 4000" and h2: "(0::int) < 3000" by simp_all
  from no_upscale[OF h1 h2, of 612 792] obtain lay where
    lay: "compute_layout (612, 792) 4000 3000 = Inr lay"
    and le: "scale_ratio lay \<le> 1" "scaled_width lay \<le> real_of_int 4000"
      "scaled_height lay \<le> real_of_int 3000"
    by blast
  from lay have "lay = \<lparr>scale_ratio = 16 / 125, scaled_width = 512, scaled_height = 384,
          target_pixel_width = 1024, target_pixel_height = 768, resize = True,
          img_x = 50, img_y = 308\<rparr>"
    by (simp add: sample_layout)
  then have "scale_ratio lay = 16 / 125" "scaled_width lay = 512" "scaled_height lay = 384"
    by simp_all
  with lay le h1 h2 show ?thesis by blast
qed

lemma sample_load: "load_rgb sample_env good_png = Inr \<lparr>mode = str ''RGB'', width = 4000, height = 3000\<rparr>"
  by (simp add: load_rgb_def sample_env_def str_def)

lemma sample_render_good:
  "render_image sample_env (612, 792) good_png =
     Inr (\<lparr>mode = str ''RGB'', width = 1024, height = 768\<rparr>,
          \<lparr>scale_ratio = 16 / 125, scaled_width = 512, scaled_height = 384,
           target_pixel_width = 1024, target_pixel_height = 768, resize = True,
           img_x = 50, img_y = 308\<rparr>)"
  by (simp add: render_image_def sample_load sample_layout) (simp add: sample_env_def)

lemma good_ne_bad: "good_png \<noteq> bad_png"
  by (simp add: good_png_def bad_png_def str_def)

lemma sample_render_bad:
  "render_image sample_env page_size bad_png = Inl UnidentifiedImageError"
  using good_ne_bad by (simp add: render_image_def load_rgb_def sample_env_def)



subsection \<open>The page loop\<close>

lemma draw_heading_code: "page_code (draw_heading page_size img_path c) \<noteq> []"
  by (cases page_size) (simp add: draw_heading_def draw_def)

lemma draw_heading_pages: "pages (draw_heading page_size img_path c) = pages c"
  by (cases page_size) (simp add: draw_heading_def draw_def)

lemma process_image_pages:
  "length (pages (fst (process_image e page_size st img_path))) =
     length (pages (fst st)) + (if renders e page_size img_path then 1 else 0)"
  by (cases st)
    (auto simp: process_image_def Let_def renders_def showPage_def draw_def draw_heading_pages
      split: sum.splits)

lemma process_image_code:
  "page_code (fst (process_image e page_size st img_path)) = [] \<longleftrightarrow>
     renders e page_size img_path"
  by (cases st)
    (auto simp: process_image_def Let_def renders_def showPage_def draw_heading_code
      split: sum.splits)

lemma foldl_process_pages:
  "length (pages (fst (foldl (process_image e page_size) st files))) =
     length (pages (fst st)) + length (filter (renders e page_size) files)"
  by (induction files arbitrary: st) (simp_all add: process_image_pages)

lemma foldl_process_code:
  "files \<noteq> [] \<Longrightarrow>
     page_code (fst (foldl (process_image e page_size) st files)) = [] \<longleftrightarrow>
     renders e page_size (last files)"
proof (induction files arbitrary: st)
  case Nil
  then show ?case by simp
next
  case (Cons p ps)
  show ?case
  proof (cases "ps = []")
    case True
    then show ?thesis by (simp add: process_image_code)
  next
    case False
    with Cons.IH[OF False, of "process_image e page_size st p"] show ?thesis by simp
  qed
qed

lemma save_length:
  "length (save c) = length (pages c) + (if page_code c = [] then 0 else 1)"
  by (simp add: save_def showPage_def)

text \<open>
  The number of pages of the document: one for every file whose loop body completes, and
  one more when the last file fails, because its heading is still on the current page
  when the canvas is saved. No exception of the loop body reaches the caller.
\<close>

lemma create_pdf_page_count:
  assumes "image_files \<noteq> []" "save_error e = None"
  shows "\<exists>pgs lg. create_pdf_with_images e image_files page_size =
            Inr \<lparr>document = Some pgs, printed = lg\<rparr> \<and>
          length pgs = length (filter (renders e page_size) image_files) +
            (if renders e page_size (last image_files) then 0 else 1)"
proof -
  obtain c lg where st: "foldl (process_image e page_size) (new_canvas, []) image_files = (c, lg)"
    by (cases "foldl (process_image e page_size) (new_canvas, []) image_files") auto
  have p: "length (pages c) = length (filter (renders e page_size) image_files)"
    using foldl_process_pages[of e page_size "(new_canvas, [])" image_files] st
    by (simp add: new_canvas_def)
  have q: "page_code c = [] \<longleftrightarrow> renders e page_size (last image_files)"
    using foldl_process_code[OF assms(1), of e page_size "(new_canvas, [])"] st by simp
  have "create_pdf_with_images e image_files page_size =
          Inr \<lparr>document = Some (save c), printed = lg @ [PdfCreated]\<rparr>"
    using assms st by (simp add: create_pdf_with_images_def)
  moreover have "length (save c) = length (filter (renders e page_size) image_files) +
            (if renders e page_size (last image_files) then 0 else 1)"
    using p q by (simp add: save_length)
  ultimately show ?thesis by blast
qed

text \<open>
  Claim C7 (degenerate input). With an empty list the function returns at once: it
  raises nothing, prints the warning and writes no document.
\<close>

theorem create_pdf_empty_input:
  "create_pdf_with_images e [] page_size = Inr \<lparr>document = None, printed = [NoImagesWarning]\<rparr>"
  by (simp add: create_pdf_with_images_def)

text \<open>
  Claim C6 (fault isolation) fails when the asset that cannot be decoded is the last one.
  For the batch \<open>[good.png, bad.png]\<close>, where \<open>bad.png\<close> is not an image, one asset is
  valid, yet the document has two pages: the page of \<open>good.png\<close>, and a page that holds
  only the heading of \<open>bad.png\<close>, drawn before \<^verbatim>\<open>Image.open\<close> raised and flushed
  by \<^verbatim>\<open>save\<close>.
\<close>

theorem failed_last_asset_adds_page:
  "render_image sample_env letter bad_png = Inl UnidentifiedImageError \<and>
   renders sample_env letter good_png \<and>
   create_pdf_with_images sample_env [good_png, bad_png] letter =
     Inr \<lparr>document = Some
            [page_code (draw_heading letter good_png new_canvas) @
               [DrawImage \<lparr>mode = str ''RGB'', width = 1024, height = 768\<rparr> 50 308 512 384],
             page_code (draw_heading letter bad_png new_canvas)],
          printed = [Added (name good_png), ErrorProcessing (name bad_png) UnidentifiedImageError,
                     PdfCreated]\<rparr> \<and>
   length [page_code (draw_heading letter good_png new_canvas) @
               [DrawImage \<lparr>mode = str ''RGB'', width = 1024, height = 768\<rparr> 50 308 512 384],
           page_code (draw_heading letter bad_png new_canvas)] = 2"
proof -
  have g: "render_image sample_env letter good_png =
     Inr (\<lparr>mode = str ''RGB'', width = 1024, height = 768\<rparr>,
          \<lparr>scale_ratio = 16 / 125, scaled_width = 512, scaled_height = 384,
           target_pixel_width = 1024, target_pixel_height = 768, resize = True,
           img_x = 50, img_y = 308\<rparr>)"
    unfolding letter_def by (rule sample_render_good)
  have b: "render_image sample_env letter bad_png = Inl UnidentifiedImageError"
    by (rule sample_render_bad)
  have s: "save_error sample_env = None" by (simp add: sample_env_def)
  have "create_pdf_with_images sample_env [good_png, bad_png] letter =
     Inr \<lparr>document = Some
            [page_code (draw_heading letter good_png new_canvas) @
               [DrawImage \<lparr>mode = str ''RGB'', width = 1024, height = 768\<rparr> 50 308 512 384],
             page_code (draw_heading letter bad_png new_canvas)],
          printed = [Added (name good_png), ErrorProcessing (name bad_png) UnidentifiedImageError,
                     PdfCreated]\<rparr>"
    by (simp add: create_pdf_with_images_def process_image_def Let_def sample_render_good
        sample_render_bad s save_def showPage_def draw_def draw_heading_def letter_def
        new_canvas_def)
  with g b show ?thesis by (simp add: renders_def)
qed

end
